theory Spec2Isabelle
  imports Main
begin

section \<open>Values of the host language\<close>

text \<open>
  The TypeScript sources pass around values of type \<^verbatim>\<open>string | undefined\<close> and
  test them with \<^verbatim>\<open>if (x)\<close>. Such a value is a \<^typ>\<open>string option\<close>
  (\<^term>\<open>None\<close> for \<^verbatim>\<open>undefined\<close> and \<^verbatim>\<open>null\<close>); the test is true
  exactly for a string that is not empty.

  Header values handed out by \<^verbatim>\<open>Headers.get\<close> and the result of \<^verbatim>\<open>atob\<close> are
  byte strings (every code unit below 256), which is what \<^typ>\<open>string\<close> holds.
\<close>

definition truthy :: "string option \<Rightarrow> bool" where
  "truthy x = (case x of None \<Rightarrow> False | Some s \<Rightarrow> s \<noteq> [])"

section \<open>claimsManager.ts: the session-scoped claims store\<close>

text \<open>
  \<^verbatim>\<open>sessionStorage\<close> is a mutable table from string keys to string values.
  It is a map that every store operation takes and returns. \<^verbatim>\<open>getItem\<close> gives
  \<^verbatim>\<open>null\<close> for a missing key, which \<^verbatim>\<open>?? undefined\<close> turns into \<^verbatim>\<open>undefined\<close>;
  a stored empty string is not nullish and is returned as it is. The model
  takes \<^verbatim>\<open>setItem\<close> to succeed (the storage quota is not modelled).
\<close>

type_synonym storage = "string \<rightharpoonup> string"

definition STORAGE_KEY_PREFIX :: string where
  "STORAGE_KEY_PREFIX = ''naa_cae_claims_''"

definition storeClaimsChallenge :: "string \<Rightarrow> string \<Rightarrow> storage \<Rightarrow> storage" where
  "storeClaimsChallenge resource claims st = st(STORAGE_KEY_PREFIX @ resource \<mapsto> claims)"

definition getStoredClaimsChallenge :: "string \<Rightarrow> storage \<Rightarrow> string option" where
  "getStoredClaimsChallenge resource st = st (STORAGE_KEY_PREFIX @ resource)"

definition clearClaimsChallenge :: "string \<Rightarrow> storage \<Rightarrow> storage" where
  "clearClaimsChallenge resource st = st(STORAGE_KEY_PREFIX @ resource := None)"

section \<open>claimsManager.ts: parsing the challenge header\<close>

subsection \<open>The platform's \<^verbatim>\<open>atob\<close>\<close>

text \<open>
  \<^verbatim>\<open>atob\<close> is the browser's forgiving base64 decoder: it drops ASCII
  whitespace, drops one or two trailing \<^verbatim>\<open>=\<close> when the length is a multiple
  of four, throws when the remaining length is 1 modulo 4 or when a character
  is outside the base64 alphabet, and otherwise turns each group of four
  sextets into three bytes, a final group of three into two bytes and a final
  group of two into one byte. A throw is the value \<^term>\<open>None\<close>.
\<close>

definition is_ascii_whitespace :: "char \<Rightarrow> bool" where
  "is_ascii_whitespace c = (c \<in> {CHR 0x09, CHR 0x0A, CHR 0x0C, CHR 0x0D, CHR 0x20})"

definition base64_alphabet :: string where
  "base64_alphabet =
     ''ABCDEFGHIJKLMNOPQRSTUVWXYZabcdefghijklmnopqrstuvwxyz0123456789+/''"

fun index_of :: "char \<Rightarrow> string \<Rightarrow> nat option" where
  "index_of c [] = None"
| "index_of c (x # xs) =
     (if c = x then Some 0 else map_option Suc (index_of c xs))"

definition sextet :: "char \<Rightarrow> nat option" where
  "sextet c = index_of c base64_alphabet"

definition byte :: "nat \<Rightarrow> char" where
  "byte n =
     Char (odd n) (odd (n div 2)) (odd (n div 4)) (odd (n div 8))
       (odd (n div 16)) (odd (n div 32)) (odd (n div 64)) (odd (n div 128))"

fun decode_sextets :: "nat list \<Rightarrow> string" where
  "decode_sextets (a # b # c # d # rest) =
     (let n = ((a * 64 + b) * 64 + c) * 64 + d
      in byte (n div 65536) # byte (n div 256) # byte n # decode_sextets rest)"
| "decode_sextets [a, b, c] =
     (let n = ((a * 64 + b) * 64 + c) div 4 in [byte (n div 256), byte n])"
| "decode_sextets [a, b] = [byte ((a * 64 + b) div 16)]"
| "decode_sextets _ = []"

definition strip_padding :: "string \<Rightarrow> string" where
  "strip_padding d =
     (if length d mod 4 = 0 then
        (if 2 \<le> length d \<and> drop (length d - 2) d = ''=='' then take (length d - 2) d
         else if 1 \<le> length d \<and> drop (length d - 1) d = ''='' then take (length d - 1) d
         else d)
      else d)"

definition atob :: "string \<Rightarrow> string option" where
  "atob data =
     (let d = strip_padding (filter (\<lambda>c. \<not> is_ascii_whitespace c) data)
      in if length d mod 4 = 1 then None
         else if list_ex (\<lambda>c. sextet c = None) d then None
         else Some (decode_sextets (map (\<lambda>c. the (sextet c)) d)))"

subsection \<open>The base64 encoding\<close>





subsection \<open>The regular expression \<^verbatim>\<open>/claims="([^"]+)"/i\<close>\<close>

text \<open>
  \<^verbatim>\<open>exec\<close> tries every start position from the left and returns the first
  match. At one position the expression matches the seven characters
  \<^verbatim>\<open>claims=\<close> and the quote (letters compared after case folding, as the
  flag \<^verbatim>\<open>i\<close> asks), then the longest run of characters that are not a
  quote, which must not be empty, and then a quote. The run is the first
  group. Without the flag \<^verbatim>\<open>u\<close> a character above 127 never folds to an ASCII
  letter, so only the ASCII letters fold.
\<close>

definition canonicalize :: "char \<Rightarrow> char" where
  "canonicalize c =
     (case index_of c ''abcdefghijklmnopqrstuvwxyz'' of
        Some i \<Rightarrow> ''ABCDEFGHIJKLMNOPQRSTUVWXYZ'' ! i
      | None \<Rightarrow> c)"

fun match_literal :: "string \<Rightarrow> string \<Rightarrow> string option" where
  "match_literal [] s = Some s"
| "match_literal (p # ps) [] = None"
| "match_literal (p # ps) (c # cs) =
     (if canonicalize c = canonicalize p then match_literal ps cs else None)"

definition match_group :: "string \<Rightarrow> string option" where
  "match_group s =
     (let v = takeWhile (\<lambda>c. c \<noteq> CHR 0x22) s
      in if v \<noteq> [] \<and> dropWhile (\<lambda>c. c \<noteq> CHR 0x22) s \<noteq> [] then Some v else None)"

definition match_here :: "string \<Rightarrow> string option" where
  "match_here s =
     (case match_literal (''claims='' @ [CHR 0x22]) s of
        None \<Rightarrow> None
      | Some rest \<Rightarrow> match_group rest)"

fun claimsRegex_exec :: "string \<Rightarrow> string option" where
  "claimsRegex_exec s =
     (case match_here s of
        Some v \<Rightarrow> Some v
      | None \<Rightarrow> (case s of [] \<Rightarrow> None | _ # t \<Rightarrow> claimsRegex_exec t))"

declare claimsRegex_exec.simps [simp del]

subsection \<open>parseClaimsChallengeFromHeader\<close>

text \<open>
  The first group of a match is never empty, so \<^verbatim>\<open>!match?.[1]\<close> holds exactly
  when there is no match. The \<^verbatim>\<open>catch\<close> around \<^verbatim>\<open>atob\<close> returns the group as it
  is.
\<close>

definition parseClaimsChallengeFromHeader :: "string \<Rightarrow> string option" where
  "parseClaimsChallengeFromHeader wwwAuthenticateHeader =
     (case claimsRegex_exec wwwAuthenticateHeader of
        None \<Rightarrow> None
      | Some m1 \<Rightarrow>
          (if m1 = [] then None
           else (case atob m1 of Some decoded \<Rightarrow> Some decoded | None \<Rightarrow> Some m1)))"

text \<open>
  What the specification calls a well-formed pair, in its own words: at offset
  \<open>i\<close> of the header stands a key that reads \<^verbatim>\<open>claims\<close> up to the case of its
  letters, then \<^verbatim>\<open>=\<close>, then a quoted value \<open>v\<close> that is not empty and holds
  no quote.
\<close>

definition claims_pair_at :: "string \<Rightarrow> nat \<Rightarrow> string \<Rightarrow> bool" where
  "claims_pair_at h i v \<longleftrightarrow>
     (\<exists>pre k post. h = pre @ k @ ''='' @ [CHR 0x22] @ v @ [CHR 0x22] @ post \<and> length pre = i \<and>
        map canonicalize k = ''CLAIMS'' \<and> v \<noteq> [] \<and> CHR 0x22 \<notin> set v)"

subsection \<open>handleClaimsChallengeFromResponse\<close>

text \<open>
  Of a \<^verbatim>\<open>Response\<close> the code reads the status, the status text, the header
  \<^verbatim>\<open>WWW-Authenticate\<close> and the body; \<^verbatim>\<open>ok\<close> is true for a status from 200
  to 299.
\<close>

record response =
  status :: nat
  statusText :: string
  header_WWW_Authenticate :: "string option"
  bodyText :: string

definition ok :: "response \<Rightarrow> bool" where
  "ok r = (200 \<le> status r \<and> status r \<le> 299)"

definition handleClaimsChallengeFromResponse ::
  "response \<Rightarrow> string \<Rightarrow> storage \<Rightarrow> string option \<times> storage" where
  "handleClaimsChallengeFromResponse resp resource st =
     (if status resp \<noteq> 401 then (None, st)
      else (case header_WWW_Authenticate resp of
              None \<Rightarrow> (None, st)
            | Some wwwAuth \<Rightarrow>
                (if wwwAuth = [] then (None, st)
                 else (case parseClaimsChallengeFromHeader wwwAuth of
                         None \<Rightarrow> (None, st)
                       | Some c \<Rightarrow>
                           (Some c, if c \<noteq> [] then storeClaimsChallenge resource c st else st)))))"

section \<open>authConfig.ts: the request object\<close>

text \<open>
  An account is opaque to this code and stands for its identifier. A
  \<^verbatim>\<open>PopupRequest\<close> has the scopes and three optional fields; a field that
  was never assigned is \<^term>\<open>None\<close>.
\<close>

type_synonym account = string

record token_request =
  req_scopes :: "string list"
  req_account :: "account option"
  req_claims :: "string option"
  req_forceRefresh :: "bool option"

definition buildGraphRequest :: "string list \<Rightarrow> string option \<Rightarrow> token_request" where
  "buildGraphRequest scopes claimsChallenge =
     (let request = \<lparr>req_scopes = scopes, req_account = None, req_claims = None,
                      req_forceRefresh = None\<rparr>
      in if truthy claimsChallenge then request\<lparr>req_claims := claimsChallenge\<rparr> else request)"

section \<open>authService.ts\<close>

subsection \<open>The provider, the network and the state of the page\<close>

text \<open>
  The identity provider's client and \<^verbatim>\<open>fetch\<close> are outside this code. They
  are an environment of functions that answer each call from everything that
  happened so far, so that any scripted provider is an environment. Every call
  to them is written to a trace with its arguments and its outcome, together
  with the session storage at the moment of the call.

  A rejected promise or a \<^verbatim>\<open>throw\<close> is a value of type \<open>error\<close>:
  an \<^verbatim>\<open>InteractionRequiredAuthError\<close> with its field \<^verbatim>\<open>claims\<close>, any other
  thrown value, or the \<^verbatim>\<open>Error\<close> that callGraphWithClaimsRetry builds.
\<close>

record auth_result =
  accessToken :: string
  res_account :: "account option"

datatype error =
    InteractionRequiredAuthError "string option"
  | OtherError string
  | Error string

datatype event =
    CreateNestablePublicClientApplication "error + unit"
  | AcquireTokenSilent token_request "error + auth_result"
  | AcquireTokenPopup token_request "error + auth_result"
  | Fetch string string "error + response"

type_synonym history = "(event \<times> storage) list"

record 'j environment =
  createNestablePublicClientApplication :: "history \<Rightarrow> error + unit"
  acquireTokenSilent :: "history \<Rightarrow> token_request \<Rightarrow> error + auth_result"
  acquireTokenPopup :: "history \<Rightarrow> token_request \<Rightarrow> error + auth_result"
  getAllAccounts :: "history \<Rightarrow> account list"
  fetch :: "history \<Rightarrow> string \<Rightarrow> string \<Rightarrow> error + response"
  json :: "string \<Rightarrow> error + 'j"

text \<open>
  The state of the page: the session storage, the module variable
  \<^verbatim>\<open>msalInstance\<close> (a client is named by the number of clients constructed
  before it), the client's active account, and the trace. The trace is not
  read by the code; it is there to state what was called, with what and when.
  \<open>constructions\<close>, \<open>silent_calls\<close>, \<open>popup_calls\<close> and \<open>fetch_calls\<close> select
  the calls of one kind from a trace, and \<open>events_since w w'\<close> is what a run
  from \<open>w\<close> to \<open>w'\<close> added to it.
\<close>

record world =
  sessionStorage :: storage
  msalInstance :: "nat option"
  activeAccount :: "account option"
  trace :: history

definition record_call :: "event \<Rightarrow> world \<Rightarrow> world" where
  "record_call e w = w\<lparr>trace := trace w @ [(e, sessionStorage w)]\<rparr>"

fun constructions :: "history \<Rightarrow> nat" where
  "constructions [] = 0"
| "constructions ((CreateNestablePublicClientApplication out, st) # h) = Suc (constructions h)"
| "constructions (_ # h) = constructions h"

fun silent_calls :: "history \<Rightarrow> (token_request \<times> (error + auth_result)) list" where
  "silent_calls [] = []"
| "silent_calls ((AcquireTokenSilent r out, st) # h) = (r, out) # silent_calls h"
| "silent_calls (_ # h) = silent_calls h"

fun popup_calls :: "history \<Rightarrow> (token_request \<times> storage) list" where
  "popup_calls [] = []"
| "popup_calls ((AcquireTokenPopup r out, st) # h) = (r, st) # popup_calls h"
| "popup_calls (_ # h) = popup_calls h"

fun fetch_calls :: "history \<Rightarrow> ((string \<times> string) \<times> (error + response)) list" where
  "fetch_calls [] = []"
| "fetch_calls ((Fetch url auth out, st) # h) = ((url, auth), out) # fetch_calls h"
| "fetch_calls (_ # h) = fetch_calls h"

definition events_since :: "world \<Rightarrow> world \<Rightarrow> history" where
  "events_since w w' = drop (length (trace w)) (trace w')"

subsection \<open>getMsalInstance\<close>

text \<open>
  An \<^verbatim>\<open>async\<close> function runs without interruption up to its first
  \<^verbatim>\<open>await\<close> and is resumed later, when the awaited promise is settled. So
  getMsalInstance is two steps: \<open>getMsalInstance_enter\<close> tests the module
  variable and, when it is null, calls the constructor and suspends;
  \<open>getMsalInstance_resume\<close> runs when the construction has ended, assigns the
  variable and returns. Other code of the page may run between the two. A call
  that nothing interleaves with is \<open>getMsalInstance\<close>.
\<close>

datatype pending = Pending nat "error + unit"

definition getMsalInstance_enter :: "'j environment \<Rightarrow> world \<Rightarrow> (nat + pending) \<times> world" where
  "getMsalInstance_enter env w =
     (case msalInstance w of
        Some pca \<Rightarrow> (Inl pca, w)
      | None \<Rightarrow>
          (let outcome = createNestablePublicClientApplication env (trace w)
           in (Inr (Pending (constructions (trace w)) outcome),
               record_call (CreateNestablePublicClientApplication outcome) w)))"

definition getMsalInstance_resume :: "pending \<Rightarrow> world \<Rightarrow> (error + nat) \<times> world" where
  "getMsalInstance_resume p w =
     (case p of Pending pca outcome \<Rightarrow>
        (case outcome of
           Inl e \<Rightarrow> (Inl e, w)
         | Inr _ \<Rightarrow> (Inr pca, w\<lparr>msalInstance := Some pca\<rparr>)))"

definition getMsalInstance :: "'j environment \<Rightarrow> world \<Rightarrow> (error + nat) \<times> world" where
  "getMsalInstance env w =
     (case getMsalInstance_enter env w of
        (Inl pca, w1) \<Rightarrow> (Inr pca, w1)
      | (Inr p, w1) \<Rightarrow> getMsalInstance_resume p w1)"

subsection \<open>getActiveAccount\<close>

definition setActiveAccount :: "account \<Rightarrow> world \<Rightarrow> world" where
  "setActiveAccount a w = w\<lparr>activeAccount := Some a\<rparr>"

definition getActiveAccount :: "'j environment \<Rightarrow> world \<Rightarrow> account option \<times> world" where
  "getActiveAccount env w =
     (if msalInstance w = None then (None, w)
      else (case activeAccount w of
              Some active \<Rightarrow> (Some active, w)
            | None \<Rightarrow>
                (case getAllAccounts env (trace w) of
                   a # _ \<Rightarrow> (Some a, setActiveAccount a w)
                 | [] \<Rightarrow> (None, w))))"

subsection \<open>acquireToken\<close>

text \<open>
  The function is run without interleaving. The worlds \<open>w1\<close> to \<open>w6\<close> are the
  state of the page after each statement that changes it. The branch
  \<open>Inr result\<close> is the rest of the \<^verbatim>\<open>try\<close> block; the branch \<open>Inl err\<close> is the
  \<^verbatim>\<open>catch\<close> block, where \<^verbatim>\<open>instanceof InteractionRequiredAuthError\<close> is the
  case distinction on the error and the test \<^verbatim>\<open>error.claims\<close> is true for a
  string that is not empty. An object (an account) is always true in a test.
\<close>

definition acquireToken ::
  "'j environment \<Rightarrow> string list \<Rightarrow> string \<Rightarrow> world \<Rightarrow> (error + auth_result) \<times> world" where
  "acquireToken env scopes resource w =
     (case getMsalInstance env w of
        (Inl e, w1) \<Rightarrow> (Inl e, w1)
      | (Inr pca, w1) \<Rightarrow>
          (case getActiveAccount env w1 of
             (account, w2) \<Rightarrow>
               (let storedClaims = getStoredClaimsChallenge resource (sessionStorage w2);
                    request0 = buildGraphRequest scopes storedClaims;
                    request1 = (case account of
                                  Some a \<Rightarrow> request0\<lparr>req_account := Some a\<rparr>
                                | None \<Rightarrow> request0);
                    request = (if truthy storedClaims
                               then request1\<lparr>req_forceRefresh := Some True\<rparr>
                               else request1);
                    silent = acquireTokenSilent env (trace w2) request;
                    w3 = record_call (AcquireTokenSilent request silent) w2
                in (case silent of
                      Inr result \<Rightarrow>
                        (let w4 = (case res_account result of
                                     Some a \<Rightarrow> setActiveAccount a w3
                                   | None \<Rightarrow> w3);
                             w5 = (if truthy storedClaims
                                   then w4\<lparr>sessionStorage :=
                                          clearClaimsChallenge resource (sessionStorage w4)\<rparr>
                                   else w4)
                         in (Inr result, w5))
                    | Inl err \<Rightarrow>
                        (case err of
                           InteractionRequiredAuthError error_claims \<Rightarrow>
                             (let (request', w4) =
                                    (case error_claims of
                                       None \<Rightarrow> (request, w3)
                                     | Some c \<Rightarrow>
                                         (if c \<noteq> [] then
                                            (request\<lparr>req_claims := Some c\<rparr>,
                                             w3\<lparr>sessionStorage :=
                                                  storeClaimsChallenge resource c
                                                    (sessionStorage w3)\<rparr>)
                                          else (request, w3)));
                                  popup = acquireTokenPopup env (trace w4) request';
                                  w5 = record_call (AcquireTokenPopup request' popup) w4
                              in (case popup of
                                    Inl e \<Rightarrow> (Inl e, w5)
                                  | Inr result \<Rightarrow>
                                      (let w6 = (case res_account result of
                                                   Some a \<Rightarrow> setActiveAccount a w5
                                                 | None \<Rightarrow> w5)
                                       in (Inr result,
                                           w6\<lparr>sessionStorage :=
                                                clearClaimsChallenge resource
                                                  (sessionStorage w6)\<rparr>))))
                         | _ \<Rightarrow> (Inl err, w3))))))"

subsection \<open>callGraphWithClaimsRetry\<close>

text \<open>
  The message of the thrown \<^verbatim>\<open>Error\<close> is a template string; \<open>decimal\<close> is the
  conversion of the status number to text. \<open>do_fetch\<close> is one awaited call of
  \<^verbatim>\<open>fetch\<close>, written to the trace. \<open>graph_result\<close> is the end of the function,
  from the test of \<^verbatim>\<open>response.ok\<close> on: the body text is taken as received, and
  \<^verbatim>\<open>response.json()\<close> is the environment's parser.
\<close>

fun decimal :: "nat \<Rightarrow> string" where
  "decimal n =
     (if n < 10 then [''0123456789'' ! n]
      else decimal (n div 10) @ [''0123456789'' ! (n mod 10)])"

declare decimal.simps [simp del]

definition do_fetch ::
  "'j environment \<Rightarrow> string \<Rightarrow> string \<Rightarrow> world \<Rightarrow> (error + response) \<times> world" where
  "do_fetch env url authorization w =
     (let outcome = fetch env (trace w) url authorization
      in (outcome, record_call (Fetch url authorization outcome) w))"

definition graph_result :: "'j environment \<Rightarrow> response \<Rightarrow> error + 'j" where
  "graph_result env resp =
     (if \<not> ok resp then
        Inl (Error (''Graph API error '' @ decimal (status resp) @ '': '' @ statusText resp
                    @ [CHR 0x0A] @ bodyText resp))
      else json env (bodyText resp))"

text \<open>
  The two constants of the function body, and the value of the header
  \<^verbatim>\<open>Authorization\<close> that both calls of \<^verbatim>\<open>fetch\<close> build from a token.
\<close>

definition RESOURCE :: string where
  "RESOURCE = ''graph''"

definition GRAPH_BASE :: string where
  "GRAPH_BASE = ''https://graph.microsoft.com/v1.0''"

definition authorization :: "auth_result \<Rightarrow> string" where
  "authorization tokenResult = ''Bearer '' @ accessToken tokenResult"

definition callGraphWithClaimsRetry ::
  "'j environment \<Rightarrow> string \<Rightarrow> string list \<Rightarrow> world \<Rightarrow> (error + 'j) \<times> world" where
  "callGraphWithClaimsRetry env endpoint scopes w =
     (case acquireToken env scopes RESOURCE w of
        (Inl e, w1) \<Rightarrow> (Inl e, w1)
      | (Inr tokenResult, w1) \<Rightarrow>
          (case do_fetch env (GRAPH_BASE @ endpoint) (authorization tokenResult) w1 of
             (Inl e, w2) \<Rightarrow> (Inl e, w2)
           | (Inr resp, w2) \<Rightarrow>
               (if status resp = 401 then
                  (case handleClaimsChallengeFromResponse resp RESOURCE (sessionStorage w2) of
                     (claims, st) \<Rightarrow>
                       (let w3 = w2\<lparr>sessionStorage := st\<rparr>
                        in if truthy claims then
                             (case acquireToken env scopes RESOURCE w3 of
                                (Inl e, w4) \<Rightarrow> (Inl e, w4)
                              | (Inr tokenResult2, w4) \<Rightarrow>
                                  (case do_fetch env (GRAPH_BASE @ endpoint)
                                          (authorization tokenResult2) w4 of
                                     (Inl e, w5) \<Rightarrow> (Inl e, w5)
                                   | (Inr resp2, w5) \<Rightarrow> (graph_result env resp2, w5)))
                           else (graph_result env resp, w3)))
                else (graph_result env resp, w2))))"

subsection \<open>Two overlapping calls of getMsalInstance\<close>

text \<open>
  The schedule in which a second call of getMsalInstance is entered before the
  first one is resumed: both calls run up to their \<^verbatim>\<open>await\<close>, then both are
  resumed in the order in which they were entered. A call that returned at
  once has nothing left to resume.
\<close>

definition overlapping_getMsalInstance ::
  "'j environment \<Rightarrow> world \<Rightarrow> ((error + nat) \<times> (error + nat)) \<times> world" where
  "overlapping_getMsalInstance env w =
     (case getMsalInstance_enter env w of
        (s1, w1) \<Rightarrow>
          (case getMsalInstance_enter env w1 of
             (s2, w2) \<Rightarrow>
               (case (case s1 of Inl pca \<Rightarrow> (Inr pca, w2)
                              | Inr p \<Rightarrow> getMsalInstance_resume p w2) of
                  (r1, w3) \<Rightarrow>
                    (case (case s2 of Inl pca \<Rightarrow> (Inr pca, w3)
                                   | Inr p \<Rightarrow> getMsalInstance_resume p w3) of
                       (r2, w4) \<Rightarrow> ((r1, r2), w4)))))"

subsection \<open>Scripted environments\<close>

text \<open>
  A provider double whose answers depend on the request only, a Graph double
  that answers the token \<^verbatim>\<open>t1\<close> with a claims challenge and any other token
  with success, and the state of a page that was just loaded, without and
  with a stored challenge. They are the concrete inputs of the examples below.
\<close>

definition scripted ::
  "(token_request \<Rightarrow> error + auth_result) \<Rightarrow> (token_request \<Rightarrow> error + auth_result) \<Rightarrow>
   (string \<Rightarrow> error + response) \<Rightarrow> string environment" where
  "scripted silent popup http =
     \<lparr>createNestablePublicClientApplication = (\<lambda>h. Inr ()),
      acquireTokenSilent = (\<lambda>h. silent),
      acquireTokenPopup = (\<lambda>h. popup),
      getAllAccounts = (\<lambda>h. []),
      fetch = (\<lambda>h url. http),
      json = Inr\<rparr>"

definition fresh_page :: world where
  "fresh_page = \<lparr>sessionStorage = Map.empty, msalInstance = None, activeAccount = None, trace = []\<rparr>"

definition page_with :: "string \<Rightarrow> world" where
  "page_with c = fresh_page\<lparr>sessionStorage := storeClaimsChallenge ''graph'' c Map.empty\<rparr>"

definition token :: "string \<Rightarrow> token_request \<Rightarrow> error + auth_result" where
  "token t r = Inr \<lparr>accessToken = t, res_account = Some ''alice''\<rparr>"

definition fails :: "error \<Rightarrow> token_request \<Rightarrow> error + auth_result" where
  "fails e r = Inl e"

definition silent_double :: "token_request \<Rightarrow> error + auth_result" where
  "silent_double r = (if req_claims r = None then token ''t1'' r else token ''t2'' r)"

definition step_up_double :: "token_request \<Rightarrow> error + auth_result" where
  "step_up_double r =
     (if req_claims r = None then token ''t1'' r else Inl (InteractionRequiredAuthError None))"

definition challenge_header :: string where
  "challenge_header = ''Bearer claims='' @ [CHR 0x22] @ ''eyJ0ZXN0IjoxfQ=='' @ [CHR 0x22]"

definition challenge :: string where
  "challenge = ''{'' @ [CHR 0x22] @ ''test'' @ [CHR 0x22] @ '':1}''"

definition unauthorized :: response where
  "unauthorized = \<lparr>status = 401, statusText = ''Unauthorized'',
                    header_WWW_Authenticate = Some challenge_header, bodyText = ''denied''\<rparr>"

definition success :: response where
  "success = \<lparr>status = 200, statusText = ''OK'', header_WWW_Authenticate = None,
               bodyText = ''{}''\<rparr>"

definition graph_double :: "string \<Rightarrow> error + response" where
  "graph_double auth = (if auth = ''Bearer t1'' then Inr unauthorized else Inr success)"

definition graph_denies :: "string \<Rightarrow> error + response" where
  "graph_denies auth = Inr unauthorized"

subsection \<open>The outcome of a run of acquireToken\<close>

text \<open>
  The request that acquireToken hands to the silent acquisition, written as
  one record, and what every run of acquireToken satisfies, by the way it
  ended: the client could not be made; the silent acquisition succeeded; it
  failed with another error than InteractionRequired; it failed with
  InteractionRequired and the interactive acquisition followed.
\<close>

definition silent_request :: "string list \<Rightarrow> account option \<Rightarrow> string option \<Rightarrow> token_request" where
  "silent_request scopes acct stored =
     \<lparr>req_scopes = scopes, req_account = acct,
      req_claims = (if truthy stored then stored else None),
      req_forceRefresh = (if truthy stored then Some True else None)\<rparr>"

definition built_from :: "string list \<Rightarrow> string option \<Rightarrow> token_request \<Rightarrow> bool" where
  "built_from scopes stored req \<longleftrightarrow>
     req_scopes req = scopes \<and>
     req_claims req = (if truthy stored then stored else None) \<and>
     req_forceRefresh req = (if truthy stored then Some True else None)"

definition acquireToken_post ::
  "'j environment \<Rightarrow> string list \<Rightarrow> string \<Rightarrow> world \<Rightarrow>
   (error + auth_result) \<times> world \<Rightarrow> bool" where
  "acquireToken_post env scopes resource w rw =
    (case rw of (res, w') \<Rightarrow>
    (let stored = getStoredClaimsChallenge resource (sessionStorage w);
         es = events_since w w' in
    trace w' = trace w @ es \<and> fetch_calls es = [] \<and>
    ((\<exists>e. res = Inl e \<and> fst (getMsalInstance env w) = Inl e \<and> silent_calls es = [] \<and>
          popup_calls es = [] \<and> sessionStorage w' = sessionStorage w) \<or>
     (\<exists>req result. silent_calls es = [(req, Inr result)] \<and> popup_calls es = [] \<and>
          built_from scopes stored req \<and> res = Inr result \<and>
          sessionStorage w' = (if truthy stored then clearClaimsChallenge resource (sessionStorage w)
                               else sessionStorage w)) \<or>
     (\<exists>req err. silent_calls es = [(req, Inl err)] \<and> popup_calls es = [] \<and>
          built_from scopes stored req \<and> (\<forall>c. err \<noteq> InteractionRequiredAuthError c) \<and>
          res = Inl err \<and> sessionStorage w' = sessionStorage w) \<or>
     (\<exists>req ec req' st'. silent_calls es = [(req, Inl (InteractionRequiredAuthError ec))] \<and>
          popup_calls es = [(req', st')] \<and> built_from scopes stored req \<and>
          (case ec of
             Some c \<Rightarrow> if c \<noteq> [] then req' = req\<lparr>req_claims := Some c\<rparr> \<and>
                           st' = storeClaimsChallenge resource c (sessionStorage w)
                        else req' = req \<and> st' = sessionStorage w
           | None \<Rightarrow> req' = req \<and> st' = sessionStorage w) \<and>
          ((\<exists>e. res = Inl e \<and> sessionStorage w' = st') \<or>
           (\<exists>result. res = Inr result \<and> sessionStorage w' = clearClaimsChallenge resource st'))))))"

section \<open>Properties of the claims store\<close>

text \<open>
  Claim C9. For all resources \<open>r\<close>, \<open>r'\<close> and challenges \<open>c\<close>: reading \<open>r\<close> after
  storing \<open>c\<close> for \<open>r\<close> gives \<open>c\<close>; reading \<open>r\<close> after clearing \<open>r\<close> gives
  nothing; and for \<open>r \<noteq> r'\<close> storing or clearing \<open>r\<close> leaves what is read for
  \<open>r'\<close> unchanged.
\<close>

theorem claims_store_laws:
  "getStoredClaimsChallenge r (storeClaimsChallenge r c st) = Some c \<and>
   getStoredClaimsChallenge r (clearClaimsChallenge r st) = None \<and>
   (r \<noteq> r' \<longrightarrow>
      getStoredClaimsChallenge r' (storeClaimsChallenge r c st) = getStoredClaimsChallenge r' st \<and>
      getStoredClaimsChallenge r' (clearClaimsChallenge r st) = getStoredClaimsChallenge r' st)"
  by (simp add: getStoredClaimsChallenge_def storeClaimsChallenge_def clearClaimsChallenge_def)

theorem claims_store_laws_witness:
  "''graph'' \<noteq> ''api'' \<and>
   getStoredClaimsChallenge ''api''
     (storeClaimsChallenge ''graph'' ''c'' (storeClaimsChallenge ''api'' ''old'' Map.empty)) = Some ''old'' \<and>
   getStoredClaimsChallenge ''api''
     (clearClaimsChallenge ''graph'' (storeClaimsChallenge ''api'' ''old'' Map.empty)) = Some ''old''"
  using claims_store_laws [of "''api''" "''old''" Map.empty "''graph''"]
    claims_store_laws [of "''graph''" "''c''" "storeClaimsChallenge ''api'' ''old'' Map.empty" "''api''"]
  by simp

section \<open>Properties of the header parser\<close>

subsection \<open>The matcher finds exactly the well-formed pairs\<close>

lemma match_literal_Some_iff:
  "match_literal p s = Some r \<longleftrightarrow>
     (\<exists>k. s = k @ r \<and> map canonicalize k = map canonicalize p)"
proof (induction p s rule: match_literal.induct)
  case (1 s)
  then show ?case by auto
next
  case (2 p ps)
  then show ?case by auto
next
  case (3 p ps c cs)
  show ?case
  proof (cases "canonicalize c = canonicalize p")
    case True
    have "(\<exists>k. c # cs = k @ r \<and> map canonicalize k = map canonicalize (p # ps)) \<longleftrightarrow>
          (\<exists>k'. cs = k' @ r \<and> map canonicalize k' = map canonicalize ps)"
      using True by (auto simp: Cons_eq_append_conv map_eq_Cons_conv)
    with 3 True show ?thesis by simp
  next
    case False
    then show ?thesis by (auto simp: Cons_eq_append_conv map_eq_Cons_conv)
  qed
qed

lemma match_group_Some_iff:
  "match_group s = Some v \<longleftrightarrow>
     (v \<noteq> [] \<and> CHR 0x22 \<notin> set v \<and> (\<exists>post. s = v @ CHR 0x22 # post))"
proof
  assume a: "match_group s = Some v"
  let ?P = "\<lambda>c. c \<noteq> CHR 0x22"
  from a have v: "v = takeWhile ?P s" and ne: "v \<noteq> []" and d: "dropWhile ?P s \<noteq> []"
    by (auto simp: match_group_def Let_def split: if_splits)
  from d have "hd (dropWhile ?P s) = CHR 0x22"
    using hd_dropWhile [of ?P s] by simp
  with d have "dropWhile ?P s = CHR 0x22 # tl (dropWhile ?P s)"
    by (cases "dropWhile ?P s") auto
  then have "s = v @ CHR 0x22 # tl (dropWhile ?P s)"
    using takeWhile_dropWhile_id [of ?P s] v by metis
  moreover have "CHR 0x22 \<notin> set v"
    using v set_takeWhileD by fastforce
  ultimately show "v \<noteq> [] \<and> CHR 0x22 \<notin> set v \<and> (\<exists>post. s = v @ CHR 0x22 # post)"
    using ne by blast
next
  assume "v \<noteq> [] \<and> CHR 0x22 \<notin> set v \<and> (\<exists>post. s = v @ CHR 0x22 # post)"
  then obtain post where ne: "v \<noteq> []" and nq: "CHR 0x22 \<notin> set v" and s: "s = v @ CHR 0x22 # post"
    by blast
  have all: "\<forall>x\<in>set v. x \<noteq> CHR 0x22" using nq by auto
  have "takeWhile (\<lambda>c. c \<noteq> CHR 0x22) s = v"
    using all by (simp add: s takeWhile_append2)
  moreover have "dropWhile (\<lambda>c. c \<noteq> CHR 0x22) s = CHR 0x22 # post"
    using all by (simp add: s dropWhile_append2)
  ultimately show "match_group s = Some v"
    using ne by (simp add: match_group_def)
qed

lemma index_of_Some: "index_of c xs = Some i \<Longrightarrow> i < length xs \<and> xs ! i = c"
  by (induction xs arbitrary: i) (auto split: if_splits)

lemma canonicalize_cases:
  "canonicalize c = c \<or> canonicalize c \<in> set ''ABCDEFGHIJKLMNOPQRSTUVWXYZ''"
proof (cases "index_of c ''abcdefghijklmnopqrstuvwxyz''")
  case None
  have "canonicalize c = c"
    unfolding canonicalize_def None by simp
  then show ?thesis ..
next
  case (Some i)
  have "i < length ''abcdefghijklmnopqrstuvwxyz''"
    using index_of_Some [OF Some] by (rule conjunct1)
  also have "length ''abcdefghijklmnopqrstuvwxyz'' = length ''ABCDEFGHIJKLMNOPQRSTUVWXYZ''"
    by simp
  finally have "i < length ''ABCDEFGHIJKLMNOPQRSTUVWXYZ''" .
  then have "''ABCDEFGHIJKLMNOPQRSTUVWXYZ'' ! i \<in> set ''ABCDEFGHIJKLMNOPQRSTUVWXYZ''"
    by (rule nth_mem)
  moreover have "canonicalize c = ''ABCDEFGHIJKLMNOPQRSTUVWXYZ'' ! i"
    unfolding canonicalize_def Some by simp
  ultimately have "canonicalize c \<in> set ''ABCDEFGHIJKLMNOPQRSTUVWXYZ''"
    by (simp only:)
  then show ?thesis ..
qed

lemma canonicalize_quote_self: "canonicalize (CHR 0x22) = CHR 0x22"
  by (simp add: canonicalize_def)

lemma canonicalize_equals_self: "canonicalize (CHR ''='') = CHR ''=''"
  by (simp add: canonicalize_def)

lemma canonicalize_fixed:
  assumes "x \<notin> set ''ABCDEFGHIJKLMNOPQRSTUVWXYZ''" and "canonicalize x = x"
  shows "canonicalize c = x \<longleftrightarrow> c = x"
proof
  assume a: "canonicalize c = x"
  from canonicalize_cases [of c] show "c = x"
  proof
    assume "canonicalize c = c"
    with a show ?thesis by simp
  next
    assume "canonicalize c \<in> set ''ABCDEFGHIJKLMNOPQRSTUVWXYZ''"
    with a assms(1) show ?thesis by (simp only:)
  qed
next
  assume "c = x"
  with assms(2) show "canonicalize c = x" by simp
qed

lemma canonicalize_quote: "canonicalize c = CHR 0x22 \<longleftrightarrow> c = CHR 0x22"
  by (rule canonicalize_fixed) (simp_all add: canonicalize_quote_self)

lemma canonicalize_equals: "canonicalize c = CHR ''='' \<longleftrightarrow> c = CHR ''=''"
  by (rule canonicalize_fixed) (simp_all add: canonicalize_equals_self)

lemma literal_split:
  "map canonicalize k = ''CLAIMS='' @ [CHR 0x22] \<longleftrightarrow>
     (\<exists>key. k = key @ ''='' @ [CHR 0x22] \<and> map canonicalize key = ''CLAIMS'')"
proof
  assume "map canonicalize k = ''CLAIMS='' @ [CHR 0x22]"
  then have "map canonicalize k = ''CLAIMS'' @ [CHR ''='', CHR 0x22]" by simp
  then have "\<exists>us vs. k = us @ vs \<and> ''CLAIMS'' = map canonicalize us \<and>
      [CHR ''='', CHR 0x22] = map canonicalize vs"
    by (rule iffD1 [OF map_eq_append_conv])
  then obtain key sep where k: "k = key @ sep" and key: "''CLAIMS'' = map canonicalize key"
    and sep: "[CHR ''='', CHR 0x22] = map canonicalize sep"
    by (elim exE conjE)
  from sep obtain e q where "sep = [e, q]" "canonicalize e = CHR ''=''" "canonicalize q = CHR 0x22"
    by (auto simp: Cons_eq_map_conv)
  then have "sep = ''='' @ [CHR 0x22]"
    by (simp add: canonicalize_quote canonicalize_equals)
  with k key have "k = key @ ''='' @ [CHR 0x22] \<and> map canonicalize key = ''CLAIMS''"
    by simp
  then show "\<exists>key. k = key @ ''='' @ [CHR 0x22] \<and> map canonicalize key = ''CLAIMS''"
    by (rule exI [of _ key])
next
  assume "\<exists>key. k = key @ ''='' @ [CHR 0x22] \<and> map canonicalize key = ''CLAIMS''"
  then obtain key where "k = key @ ''='' @ [CHR 0x22]" "map canonicalize key = ''CLAIMS''"
    by (elim exE conjE)
  then show "map canonicalize k = ''CLAIMS='' @ [CHR 0x22]"
    by (simp add: canonicalize_quote_self canonicalize_equals_self)
qed

lemma match_here_iff: "match_here s = Some v \<longleftrightarrow> claims_pair_at s 0 v"
proof
  assume "match_here s = Some v"
  then obtain rest where lit: "match_literal (''claims='' @ [CHR 0x22]) s = Some rest"
    and grp: "match_group rest = Some v"
    by (auto simp: match_here_def split: option.splits)
  from lit obtain k where s: "s = k @ rest"
    and k: "map canonicalize k = map canonicalize (''claims='' @ [CHR 0x22])"
    using iffD1 [OF match_literal_Some_iff] by metis
  have "map canonicalize (''claims='' @ [CHR 0x22]) = ''CLAIMS='' @ [CHR 0x22]"
    by (simp add: canonicalize_def)
  with k have "map canonicalize k = ''CLAIMS='' @ [CHR 0x22]" by (simp only:)
  then obtain key where key: "k = key @ ''='' @ [CHR 0x22]" "map canonicalize key = ''CLAIMS''"
    using iffD1 [OF literal_split] by metis
  from grp obtain post where v: "v \<noteq> []" "CHR 0x22 \<notin> set v" and rest: "rest = v @ CHR 0x22 # post"
    using iffD1 [OF match_group_Some_iff] by metis
  have "s = [] @ key @ ''='' @ [CHR 0x22] @ v @ [CHR 0x22] @ post"
    by (simp add: s key(1) rest)
  with key(2) v show "claims_pair_at s 0 v"
    unfolding claims_pair_at_def by (metis list.size(3))
next
  assume "claims_pair_at s 0 v"
  then obtain pre key post where s: "s = pre @ key @ ''='' @ [CHR 0x22] @ v @ [CHR 0x22] @ post"
    and pre: "length pre = 0" and key: "map canonicalize key = ''CLAIMS''"
    and v: "v \<noteq> []" "CHR 0x22 \<notin> set v"
    unfolding claims_pair_at_def by (elim exE conjE)
  have "map canonicalize (key @ ''='' @ [CHR 0x22]) = ''CLAIMS='' @ [CHR 0x22]"
    using iffD2 [OF literal_split] key by metis
  also have "''CLAIMS='' @ [CHR 0x22] = map canonicalize (''claims='' @ [CHR 0x22])"
    by (simp add: canonicalize_def)
  finally have k: "map canonicalize (key @ ''='' @ [CHR 0x22]) = map canonicalize (''claims='' @ [CHR 0x22])" .
  have s': "s = (key @ ''='' @ [CHR 0x22]) @ (v @ CHR 0x22 # post)"
    using s pre by simp
  have "match_literal (''claims='' @ [CHR 0x22]) s = Some (v @ CHR 0x22 # post)"
    using iffD2 [OF match_literal_Some_iff] s' k by metis
  moreover have "match_group (v @ CHR 0x22 # post) = Some v"
    using iffD2 [OF match_group_Some_iff] v by metis
  ultimately show "match_here s = Some v"
    by (simp add: match_here_def)
qed

lemma claims_pair_at_drop:
  "claims_pair_at h i v \<longleftrightarrow> i \<le> length h \<and> claims_pair_at (drop i h) 0 v"
proof
  assume "claims_pair_at h i v"
  then obtain pre k post where h: "h = pre @ k @ ''='' @ [CHR 0x22] @ v @ [CHR 0x22] @ post"
    and i: "length pre = i" and r: "map canonicalize k = ''CLAIMS''" "v \<noteq> []" "CHR 0x22 \<notin> set v"
    unfolding claims_pair_at_def by (elim exE conjE)
  from h i have "drop i h = [] @ k @ ''='' @ [CHR 0x22] @ v @ [CHR 0x22] @ post" "i \<le> length h"
    by auto
  with r show "i \<le> length h \<and> claims_pair_at (drop i h) 0 v"
    unfolding claims_pair_at_def by (metis list.size(3))
next
  assume a: "i \<le> length h \<and> claims_pair_at (drop i h) 0 v"
  then obtain k post where d: "drop i h = k @ ''='' @ [CHR 0x22] @ v @ [CHR 0x22] @ post"
    and r: "map canonicalize k = ''CLAIMS''" "v \<noteq> []" "CHR 0x22 \<notin> set v"
    unfolding claims_pair_at_def by (elim exE conjE) simp
  have "h = take i h @ k @ ''='' @ [CHR 0x22] @ v @ [CHR 0x22] @ post"
    using d append_take_drop_id [of i h] by metis
  moreover have "length (take i h) = i" using a by simp
  ultimately show "claims_pair_at h i v"
    using r unfolding claims_pair_at_def by metis
qed


lemma all_less_Suc_split: "(\<forall>j<Suc i. P j) \<longleftrightarrow> P 0 \<and> (\<forall>j<i. P (Suc j))"
proof
  assume "\<forall>j<Suc i. P j"
  then show "P 0 \<and> (\<forall>j<i. P (Suc j))" by auto
next
  assume a: "P 0 \<and> (\<forall>j<i. P (Suc j))"
  show "\<forall>j<Suc i. P j"
  proof (intro allI impI)
    fix j assume "j < Suc i"
    with a show "P j" by (cases j) auto
  qed
qed


lemma claimsRegex_exec_Some_scan:
  "claimsRegex_exec h = Some v \<longleftrightarrow>
     (\<exists>i\<le>length h. match_here (drop i h) = Some v \<and> (\<forall>j<i. match_here (drop j h) = None))"
proof (induction h)
  case Nil
  show ?case
    by (subst claimsRegex_exec.simps) (simp split: option.splits)
next
  case (Cons c cs)
  let ?Q = "\<lambda>s i. match_here (drop i s) = Some v \<and> (\<forall>j<i. match_here (drop j s) = None)"
  show ?case
  proof (cases "match_here (c # cs)")
    case (Some u)
    have exec: "claimsRegex_exec (c # cs) = Some u"
      by (subst claimsRegex_exec.simps) (simp add: Some)
    have "(\<exists>i\<le>length (c # cs). ?Q (c # cs) i) \<longleftrightarrow> u = v"
    proof
      assume "\<exists>i\<le>length (c # cs). ?Q (c # cs) i"
      then obtain i where i: "?Q (c # cs) i" by (elim exE conjE) simp
      have "i = 0"
      proof (rule ccontr)
        assume "i \<noteq> 0"
        then have "0 < i" by simp
        with i have "match_here (drop 0 (c # cs)) = None" by blast
        with Some show False by simp
      qed
      with i Some show "u = v" by simp
    next
      assume "u = v"
      with Some have "0 \<le> length (c # cs) \<and> ?Q (c # cs) 0" by simp
      then show "\<exists>i\<le>length (c # cs). ?Q (c # cs) i" by (rule exI [of _ 0])
    qed
    with exec show ?thesis by auto
  next
    case None
    have exec: "claimsRegex_exec (c # cs) = claimsRegex_exec cs"
      by (subst claimsRegex_exec.simps) (simp add: None)
    have "(\<exists>i\<le>length (c # cs). ?Q (c # cs) i) \<longleftrightarrow> (\<exists>i\<le>length cs. ?Q cs i)"
    proof
      assume "\<exists>i\<le>length (c # cs). ?Q (c # cs) i"
      then obtain i where le: "i \<le> length (c # cs)" and i: "?Q (c # cs) i" by (elim exE conjE) simp
      from i None obtain i' where i': "i = Suc i'" by (cases i) auto
      from i have "?Q cs i'" unfolding i' all_less_Suc_split by simp
      moreover from le have "i' \<le> length cs" by (simp add: i')
      ultimately show "\<exists>i\<le>length cs. ?Q cs i" by (intro exI [of _ i']) simp
    next
      assume "\<exists>i\<le>length cs. ?Q cs i"
      then obtain i where le: "i \<le> length cs" and i: "?Q cs i" by (elim exE conjE) simp
      have "?Q (c # cs) (Suc i)" unfolding all_less_Suc_split using i None by simp
      with le show "\<exists>i\<le>length (c # cs). ?Q (c # cs) i" by (intro exI [of _ "Suc i"]) simp
    qed
    with exec Cons.IH show ?thesis by simp
  qed
qed

lemma claims_pair_at_match:
  "claims_pair_at h i v \<longleftrightarrow> i \<le> length h \<and> match_here (drop i h) = Some v"
  by (subst claims_pair_at_drop) (simp only: match_here_iff)

lemma claims_pair_at_length: "claims_pair_at h i v \<Longrightarrow> i \<le> length h"
  by (simp add: claims_pair_at_match)


lemma claimsRegex_exec_Some_iff:
  "claimsRegex_exec h = Some v \<longleftrightarrow>
     (\<exists>i. claims_pair_at h i v \<and> (\<forall>j<i. \<forall>u. \<not> claims_pair_at h j u))"
proof -
  have "(\<forall>j<i. match_here (drop j h) = None) \<longleftrightarrow> (\<forall>j<i. \<forall>u. \<not> claims_pair_at h j u)"
    if "i \<le> length h" for i
  proof -
    have "match_here (drop j h) = None \<longleftrightarrow> (\<forall>u. \<not> claims_pair_at h j u)" if "j < i" for j
    proof -
      from that \<open>i \<le> length h\<close> have "j \<le> length h" by simp
      then show ?thesis
        unfolding claims_pair_at_match by (metis option.exhaust option.distinct(1))
    qed
    then show ?thesis by simp
  qed
  then show ?thesis
    unfolding claimsRegex_exec_Some_scan claims_pair_at_match by (metis (no_types, lifting))
qed

lemma parse_eq:
  "parseClaimsChallengeFromHeader h =
     (case claimsRegex_exec h of None \<Rightarrow> None
      | Some v \<Rightarrow> (case atob v of Some d \<Rightarrow> Some d | None \<Rightarrow> Some v))"
proof (cases "claimsRegex_exec h")
  case None
  then show ?thesis by (simp add: parseClaimsChallengeFromHeader_def)
next
  case (Some v)
  then have "v \<noteq> []"
    using iffD1 [OF claimsRegex_exec_Some_iff] unfolding claims_pair_at_def by metis
  with Some show ?thesis by (simp add: parseClaimsChallengeFromHeader_def)
qed

lemmas codec_eval = atob_def strip_padding_def is_ascii_whitespace_def sextet_def
  base64_alphabet_def byte_def canonicalize_def match_here_def match_group_def Let_def

lemma atob_example: "atob ''eyJ0ZXN0IjoxfQ=='' = Some ''{\"test\":1}''"
  by (simp add: codec_eval)
lemma exec_example_raw: "claimsRegex_exec ''Bearer Claims=\"{x:1}\", error=\"insufficient_claims\"'' = Some ''{x:1}''"
  by (simp add: claimsRegex_exec.simps codec_eval)
lemma atob_example_invalid: "atob ''{x:1}'' = None"
  by (simp add: codec_eval)

subsection \<open>Decoding inverts encoding\<close>









lemma split4: "(a::nat) = a div 4 * 4 + a mod 4"
  by simp

lemma split16: "(a::nat) = a div 16 * 16 + a mod 16"
  by simp

lemma split64: "(a::nat) = a div 64 * 64 + a mod 64"
  by simp














subsection \<open>Decoding and fallback\<close>


text \<open>
  The expression has no boundary before the key, so the pair it finds first
  may be the end of a longer key: here the value of \<^verbatim>\<open>error_claims\<close> is
  decoded and returned.
\<close>

lemma longer_key_example:
  "parseClaimsChallengeFromHeader
     ''Bearer error_claims=\"YWJj\", claims=\"eyJ0ZXN0IjoxfQ==\"'' = Some ''abc''"
  by (simp add: parseClaimsChallengeFromHeader_def claimsRegex_exec.simps codec_eval)



text \<open>
  Claim C8. When the value of the pair that the expression finds is not valid
  base64 (\<^verbatim>\<open>atob\<close> throws), parseClaimsChallengeFromHeader returns that value
  as it stands; the
  function has a result for every header, so nothing is thrown.
\<close>

theorem parseClaimsChallengeFromHeader_raw_fallback:
  "claims_pair_at h i v \<Longrightarrow> (\<forall>j<i. \<forall>u. \<not> claims_pair_at h j u) \<Longrightarrow> atob v = None \<Longrightarrow>
     parseClaimsChallengeFromHeader h = Some v"
proof -
  assume a: "claims_pair_at h i v" "\<forall>j<i. \<forall>u. \<not> claims_pair_at h j u" and b: "atob v = None"
  from a have "claimsRegex_exec h = Some v"
    using iffD2 [OF claimsRegex_exec_Some_iff] by metis
  with b show ?thesis by (simp add: parse_eq)
qed

theorem parseClaimsChallengeFromHeader_raw_fallback_witness:
  "parseClaimsChallengeFromHeader ''Bearer Claims=\"{x:1}\", error=\"insufficient_claims\"'' = Some ''{x:1}''"
proof -
  obtain i where "claims_pair_at ''Bearer Claims=\"{x:1}\", error=\"insufficient_claims\"'' i ''{x:1}''"
      "\<forall>j<i. \<forall>u. \<not> claims_pair_at ''Bearer Claims=\"{x:1}\", error=\"insufficient_claims\"'' j u"
    using iffD1 [OF claimsRegex_exec_Some_iff exec_example_raw] by (elim exE conjE)
  then show ?thesis
    using parseClaimsChallengeFromHeader_raw_fallback [OF _ _ atob_example_invalid] by metis
qed

section \<open>Properties of acquireToken\<close>

subsection \<open>What a run of acquireToken does\<close>

lemma silent_calls_append: "silent_calls (xs @ ys) = silent_calls xs @ silent_calls ys"
  by (induction xs rule: silent_calls.induct) simp_all

lemma popup_calls_append: "popup_calls (xs @ ys) = popup_calls xs @ popup_calls ys"
  by (induction xs rule: popup_calls.induct) simp_all

lemma fetch_calls_append: "fetch_calls (xs @ ys) = fetch_calls xs @ fetch_calls ys"
  by (induction xs rule: fetch_calls.induct) simp_all

lemma getMsalInstance_effect:
  assumes "getMsalInstance env w = (r, w1)"
  shows "sessionStorage w1 = sessionStorage w \<and>
         (\<exists>es. trace w1 = trace w @ es \<and> silent_calls es = [] \<and> popup_calls es = [] \<and>
               fetch_calls es = [])"
  using assms
  by (auto simp: getMsalInstance_def getMsalInstance_enter_def getMsalInstance_resume_def
        record_call_def Let_def split: option.splits sum.splits)

lemma getActiveAccount_effect:
  assumes "getActiveAccount env w1 = (a, w2)"
  shows "sessionStorage w2 = sessionStorage w1 \<and> trace w2 = trace w1"
  using assms
  by (auto simp: getActiveAccount_def setActiveAccount_def split: option.splits list.splits if_splits)

lemma silent_request_built:
  "(let request0 = buildGraphRequest scopes stored;
        request1 = (case acct of Some a \<Rightarrow> request0\<lparr>req_account := Some a\<rparr> | None \<Rightarrow> request0)
    in if truthy stored then request1\<lparr>req_forceRefresh := Some True\<rparr> else request1)
   = silent_request scopes acct stored"
  by (cases acct) (simp_all add: buildGraphRequest_def silent_request_def Let_def)

lemma acquireToken_unfold:
  assumes g1: "getMsalInstance env w = (Inr pca, w1)"
    and g2: "getActiveAccount env w1 = (acct, w2)"
  shows "acquireToken env scopes resource w =
     (let storedClaims = getStoredClaimsChallenge resource (sessionStorage w2);
          request = silent_request scopes acct storedClaims;
          silent = acquireTokenSilent env (trace w2) request;
          w3 = record_call (AcquireTokenSilent request silent) w2
      in (case silent of
            Inr result \<Rightarrow>
              (let w4 = (case res_account result of
                           Some a \<Rightarrow> setActiveAccount a w3
                         | None \<Rightarrow> w3);
                   w5 = (if truthy storedClaims
                         then w4\<lparr>sessionStorage :=
                                clearClaimsChallenge resource (sessionStorage w4)\<rparr>
                         else w4)
               in (Inr result, w5))
          | Inl err \<Rightarrow>
              (case err of
                 InteractionRequiredAuthError error_claims \<Rightarrow>
                   (let (request', w4) =
                          (case error_claims of
                             None \<Rightarrow> (request, w3)
                           | Some c \<Rightarrow>
                               (if c \<noteq> [] then
                                  (request\<lparr>req_claims := Some c\<rparr>,
                                   w3\<lparr>sessionStorage :=
                                        storeClaimsChallenge resource c
                                          (sessionStorage w3)\<rparr>)
                                else (request, w3)));
                        popup = acquireTokenPopup env (trace w4) request';
                        w5 = record_call (AcquireTokenPopup request' popup) w4
                    in (case popup of
                          Inl e \<Rightarrow> (Inl e, w5)
                        | Inr result \<Rightarrow>
                            (let w6 = (case res_account result of
                                         Some a \<Rightarrow> setActiveAccount a w5
                                       | None \<Rightarrow> w5)
                             in (Inr result,
                                 w6\<lparr>sessionStorage :=
                                      clearClaimsChallenge resource
                                        (sessionStorage w6)\<rparr>))))
               | _ \<Rightarrow> (Inl err, w3))))"
  unfolding acquireToken_def g1 prod.case sum.case g2
  unfolding silent_request_built [symmetric]
  by (simp only: Let_def)

lemma built_from_silent_request: "built_from scopes stored (silent_request scopes acct stored)"
  by (simp add: built_from_def silent_request_def)

lemmas run_simps = acquireToken_post_def events_since_def Let_def record_call_def
  setActiveAccount_def silent_calls_append popup_calls_append fetch_calls_append
  built_from_silent_request

lemma acquireToken_run: "acquireToken_post env scopes resource w (acquireToken env scopes resource w)"
proof (cases "getMsalInstance env w")
  case (Pair r w1)
  note g1 = getMsalInstance_effect [OF Pair]
  then obtain es1 where es1: "trace w1 = trace w @ es1" "silent_calls es1 = []"
      "popup_calls es1 = []" "fetch_calls es1 = []" and st1: "sessionStorage w1 = sessionStorage w"
    by blast
  show ?thesis
  proof (cases r)
    case (Inl e)
    with Pair have "acquireToken env scopes resource w = (Inl e, w1)" by (simp add: acquireToken_def)
    with es1 st1 Pair Inl show ?thesis by (simp add: acquireToken_post_def events_since_def)
  next
    case (Inr pca)
    obtain acct w2 where g2: "getActiveAccount env w1 = (acct, w2)" by (cases "getActiveAccount env w1")
    from getActiveAccount_effect [OF g2] es1 st1
    have w2: "trace w2 = trace w @ es1" "sessionStorage w2 = sessionStorage w" by auto
    note unfold = acquireToken_unfold [OF Pair [unfolded Inr] g2]
    let ?req = "silent_request scopes acct (getStoredClaimsChallenge resource (sessionStorage w))"
    show ?thesis
    proof (cases "acquireTokenSilent env (trace w @ es1) ?req")
      case ok: (Inr result)
      show ?thesis
        by (cases "res_account result")
           (simp_all add: unfold w2 ok es1 run_simps)
    next
      case failed: (Inl err)
      show ?thesis
      proof (cases err)
        case (InteractionRequiredAuthError ec)
        show ?thesis
        proof (cases "truthy ec")
          case True
          then obtain c where c: "ec = Some c" "c \<noteq> []" by (cases ec) (auto simp: truthy_def)
          show ?thesis
            by (simp add: unfold w2 failed InteractionRequiredAuthError c es1 run_simps
                  split: sum.splits option.splits)
        next
          case False
          then have c: "ec = None \<or> ec = Some []" by (cases ec) (auto simp: truthy_def)
          then show ?thesis
            by (auto simp add: unfold w2 failed InteractionRequiredAuthError es1 run_simps
                  split: sum.splits option.splits)
        qed
      next
        case (OtherError x)
        show ?thesis
          by (simp add: unfold w2 failed OtherError es1 run_simps)
      next
        case (Error x)
        show ?thesis
          by (simp add: unfold w2 failed Error es1 run_simps)
      qed
    qed
  qed
qed

lemma acquireToken_runD:
  assumes "acquireToken env scopes resource w = (res, w')"
  shows "acquireToken_post env scopes resource w (res, w')"
  using acquireToken_run [of env scopes resource w] assms by simp

lemma acquireToken_trace:
  assumes "acquireToken env scopes resource w = (res, w')"
  shows "\<exists>es. trace w' = trace w @ es \<and> fetch_calls es = []"
  using acquireToken_runD [OF assms]
  unfolding acquireToken_post_def prod.case Let_def by blast

lemmas model_eval = acquireToken_def getMsalInstance_def getMsalInstance_enter_def
  getMsalInstance_resume_def getActiveAccount_def setActiveAccount_def record_call_def
  buildGraphRequest_def truthy_def getStoredClaimsChallenge_def storeClaimsChallenge_def
  clearClaimsChallenge_def STORAGE_KEY_PREFIX_def scripted_def fresh_page_def page_with_def
  token_def fails_def silent_double_def step_up_double_def events_since_def Let_def
  do_fetch_def graph_result_def ok_def RESOURCE_def GRAPH_BASE_def authorization_def
  handleClaimsChallengeFromResponse_def unauthorized_def success_def graph_double_def
  graph_denies_def silent_request_def

subsection \<open>The request of the silent acquisition\<close>

text \<open>
  Claim C1. In every run of acquireToken for a resource whose stored challenge
  is a string \<open>c\<close> that is not empty, the request handed to the silent
  acquisition has \<open>claims = c\<close> and \<open>forceRefresh = true\<close>; when nothing is
  stored for the resource, neither field is set. A run makes at most one
  silent acquisition, and exactly one when getMsalInstance gives a client.
\<close>

theorem acquireToken_attaches_stored_challenge:
  "(getStoredClaimsChallenge resource (sessionStorage w) = Some c \<and> c \<noteq> [] \<longrightarrow>
      (\<forall>(req, out) \<in> set (silent_calls (events_since w (snd (acquireToken env scopes resource w)))).
          req_claims req = Some c \<and> req_forceRefresh req = Some True)) \<and>
   (getStoredClaimsChallenge resource (sessionStorage w) = None \<longrightarrow>
      (\<forall>(req, out) \<in> set (silent_calls (events_since w (snd (acquireToken env scopes resource w)))).
          req_claims req = None \<and> req_forceRefresh req = None)) \<and>
   length (silent_calls (events_since w (snd (acquireToken env scopes resource w)))) \<le> 1 \<and>
   ((\<exists>pca. fst (getMsalInstance env w) = Inr pca) \<longrightarrow>
      length (silent_calls (events_since w (snd (acquireToken env scopes resource w)))) = 1)"
proof -
  obtain res w' where run: "acquireToken env scopes resource w = (res, w')"
    by (cases "acquireToken env scopes resource w")
  from acquireToken_runD [OF run] show ?thesis
    unfolding run snd_conv acquireToken_post_def prod.case Let_def
    by (auto simp: built_from_def truthy_def)
qed

theorem acquireToken_attaches_stored_challenge_witness:
  "getStoredClaimsChallenge ''graph'' (sessionStorage (page_with ''{x}'')) = Some ''{x}'' \<and>
   fst (getMsalInstance (scripted silent_double (token ''p'') graph_double) (page_with ''{x}''))
     = Inr 0 \<and>
   map fst (silent_calls (events_since (page_with ''{x}'')
     (snd (acquireToken (scripted silent_double (token ''p'') graph_double) [''User.Read''] ''graph''
        (page_with ''{x}'')))))
     = [\<lparr>req_scopes = [''User.Read''], req_account = None, req_claims = Some ''{x}'',
          req_forceRefresh = Some True\<rparr>] \<and>
   getStoredClaimsChallenge ''graph'' (sessionStorage fresh_page) = None \<and>
   map fst (silent_calls (events_since fresh_page
     (snd (acquireToken (scripted silent_double (token ''p'') graph_double) [''User.Read''] ''graph''
        fresh_page))))
     = [\<lparr>req_scopes = [''User.Read''], req_account = None, req_claims = None,
          req_forceRefresh = None\<rparr>]"
  using acquireToken_attaches_stored_challenge [of "''graph''" "page_with ''{x}''" "''{x}''"
      "scripted silent_double (token ''p'') graph_double" "[''User.Read'']"]
    acquireToken_attaches_stored_challenge [of "''graph''" fresh_page "''{x}''"
      "scripted silent_double (token ''p'') graph_double" "[''User.Read'']"]
  by (simp add: model_eval)

text \<open>
  Claim C10. When the stored entry of the resource is the empty string,
  acquireToken does what it does with no entry: the request of the silent
  acquisition has neither \<open>claims\<close> nor \<open>forceRefresh\<close>, no interactive request
  carries the empty string as its claims, and after a silent acquisition that
  succeeded the entry is still there.
\<close>

theorem acquireToken_ignores_empty_challenge:
  "getStoredClaimsChallenge resource (sessionStorage w) = Some [] \<Longrightarrow>
   (\<forall>(req, out) \<in> set (silent_calls (events_since w (snd (acquireToken env scopes resource w)))).
       req_claims req = None \<and> req_forceRefresh req = None) \<and>
   (\<forall>(req', st') \<in> set (popup_calls (events_since w (snd (acquireToken env scopes resource w)))).
       req_claims req' \<noteq> Some []) \<and>
   (\<forall>req result.
       (req, Inr result) \<in> set (silent_calls (events_since w (snd (acquireToken env scopes resource w))))
       \<longrightarrow> getStoredClaimsChallenge resource
             (sessionStorage (snd (acquireToken env scopes resource w))) = Some [])"
proof -
  assume a: "getStoredClaimsChallenge resource (sessionStorage w) = Some []"
  obtain res w' where run: "acquireToken env scopes resource w = (res, w')"
    by (cases "acquireToken env scopes resource w")
  from acquireToken_runD [OF run] a show ?thesis
    unfolding run snd_conv fst_conv acquireToken_post_def prod.case Let_def
    by (auto simp: built_from_def truthy_def split: option.splits if_splits)
qed

theorem acquireToken_ignores_empty_challenge_witness:
  "getStoredClaimsChallenge ''graph'' (sessionStorage (page_with [])) = Some [] \<and>
   silent_calls (events_since (page_with [])
     (snd (acquireToken (scripted silent_double (token ''p'') graph_double) [''User.Read''] ''graph''
        (page_with []))))
     = [(\<lparr>req_scopes = [''User.Read''], req_account = None, req_claims = None,
           req_forceRefresh = None\<rparr>,
         Inr \<lparr>accessToken = ''t1'', res_account = Some ''alice''\<rparr>)] \<and>
   getStoredClaimsChallenge ''graph'' (sessionStorage
     (snd (acquireToken (scripted silent_double (token ''p'') graph_double) [''User.Read''] ''graph''
        (page_with [])))) = Some []"
proof -
  have hyp: "getStoredClaimsChallenge ''graph'' (sessionStorage (page_with [])) = Some []"
    by (simp add: model_eval)
  have calls: "silent_calls (events_since (page_with [])
     (snd (acquireToken (scripted silent_double (token ''p'') graph_double) [''User.Read''] ''graph''
        (page_with []))))
     = [(\<lparr>req_scopes = [''User.Read''], req_account = None, req_claims = None,
           req_forceRefresh = None\<rparr>,
         Inr \<lparr>accessToken = ''t1'', res_account = Some ''alice''\<rparr>)]"
    by (simp add: model_eval)
  from acquireToken_ignores_empty_challenge [OF hyp, of "scripted silent_double (token ''p'') graph_double"
      "[''User.Read'']"] calls hyp
  show ?thesis by simp
qed

subsection \<open>The interactive fallback\<close>

text \<open>
  Claim C4. When the silent acquisition fails with InteractionRequired and the
  error carries a claims string \<open>e\<close> (one that the test \<^verbatim>\<open>error.claims\<close> accepts,
  that is, a string that is not empty), exactly one interactive acquisition is
  made, its request has \<open>claims = e\<close> whatever the request had before, and the
  claims store holds \<open>e\<close> for the resource at the moment of that call.
\<close>

theorem acquireToken_interactive_carries_error_claims:
  "(req, Inl (InteractionRequiredAuthError (Some e)))
      \<in> set (silent_calls (events_since w (snd (acquireToken env scopes resource w)))) \<Longrightarrow>
   e \<noteq> [] \<Longrightarrow>
   \<exists>req' st'. popup_calls (events_since w (snd (acquireToken env scopes resource w))) = [(req', st')] \<and>
      req_claims req' = Some e \<and> getStoredClaimsChallenge resource st' = Some e"
proof -
  assume a: "(req, Inl (InteractionRequiredAuthError (Some e)))
      \<in> set (silent_calls (events_since w (snd (acquireToken env scopes resource w))))"
    and e: "e \<noteq> []"
  obtain res w' where run: "acquireToken env scopes resource w = (res, w')"
    by (cases "acquireToken env scopes resource w")
  from acquireToken_runD [OF run] a e show ?thesis
    unfolding run snd_conv acquireToken_post_def prod.case Let_def
    by (auto simp: getStoredClaimsChallenge_def storeClaimsChallenge_def)
qed

theorem acquireToken_interactive_carries_error_claims_witness:
  "(silent_request [''User.Read''] None (Some ''{old}''),
    Inl (InteractionRequiredAuthError (Some ''{mfa}'')))
     \<in> set (silent_calls (events_since (page_with ''{old}'')
        (snd (acquireToken
           (scripted (fails (InteractionRequiredAuthError (Some ''{mfa}''))) (token ''p'') graph_double)
           [''User.Read''] ''graph'' (page_with ''{old}''))))) \<and>
   (\<exists>req' st'. popup_calls (events_since (page_with ''{old}'')
        (snd (acquireToken
           (scripted (fails (InteractionRequiredAuthError (Some ''{mfa}''))) (token ''p'') graph_double)
           [''User.Read''] ''graph'' (page_with ''{old}'')))) = [(req', st')] \<and>
      req_claims req' = Some ''{mfa}'' \<and> getStoredClaimsChallenge ''graph'' st' = Some ''{mfa}'')"
proof -
  have hyp: "(silent_request [''User.Read''] None (Some ''{old}''),
    Inl (InteractionRequiredAuthError (Some ''{mfa}'')))
     \<in> set (silent_calls (events_since (page_with ''{old}'')
        (snd (acquireToken
           (scripted (fails (InteractionRequiredAuthError (Some ''{mfa}''))) (token ''p'') graph_double)
           [''User.Read''] ''graph'' (page_with ''{old}'')))))"
    by (simp add: model_eval)
  have ne: "''{mfa}'' \<noteq> []" by simp
  from hyp acquireToken_interactive_carries_error_claims [OF hyp ne] show ?thesis by (rule conjI)
qed

text \<open>
  Claim C6. When the silent acquisition fails with an error that is not an
  InteractionRequired error, acquireToken fails with that same error; no
  interactive acquisition is made, the silent acquisition is not tried again,
  and the claims store is left as it was.
\<close>

theorem acquireToken_propagates_other_errors:
  "(req, Inl err) \<in> set (silent_calls (events_since w (snd (acquireToken env scopes resource w)))) \<Longrightarrow>
   (\<forall>c. err \<noteq> InteractionRequiredAuthError c) \<Longrightarrow>
   fst (acquireToken env scopes resource w) = Inl err \<and>
   popup_calls (events_since w (snd (acquireToken env scopes resource w))) = [] \<and>
   silent_calls (events_since w (snd (acquireToken env scopes resource w))) = [(req, Inl err)] \<and>
   sessionStorage (snd (acquireToken env scopes resource w)) = sessionStorage w"
proof -
  assume a: "(req, Inl err) \<in> set (silent_calls (events_since w (snd (acquireToken env scopes resource w))))"
    and b: "\<forall>c. err \<noteq> InteractionRequiredAuthError c"
  obtain res w' where run: "acquireToken env scopes resource w = (res, w')"
    by (cases "acquireToken env scopes resource w")
  from acquireToken_runD [OF run] a b show ?thesis
    unfolding run snd_conv fst_conv acquireToken_post_def prod.case Let_def
    by auto
qed

theorem acquireToken_propagates_other_errors_witness:
  "(silent_request [''User.Read''] None (Some ''{x}''), Inl (OtherError ''network_error''))
     \<in> set (silent_calls (events_since (page_with ''{x}'')
        (snd (acquireToken (scripted (fails (OtherError ''network_error'')) (token ''p'') graph_double)
           [''User.Read''] ''graph'' (page_with ''{x}''))))) \<and>
   fst (acquireToken (scripted (fails (OtherError ''network_error'')) (token ''p'') graph_double)
           [''User.Read''] ''graph'' (page_with ''{x}'')) = Inl (OtherError ''network_error'') \<and>
   popup_calls (events_since (page_with ''{x}'')
        (snd (acquireToken (scripted (fails (OtherError ''network_error'')) (token ''p'') graph_double)
           [''User.Read''] ''graph'' (page_with ''{x}'')))) = []"
proof -
  have hyp: "(silent_request [''User.Read''] None (Some ''{x}''), Inl (OtherError ''network_error''))
     \<in> set (silent_calls (events_since (page_with ''{x}'')
        (snd (acquireToken (scripted (fails (OtherError ''network_error'')) (token ''p'') graph_double)
           [''User.Read''] ''graph'' (page_with ''{x}'')))))"
    by (simp add: model_eval)
  have other: "\<forall>c. OtherError ''network_error'' \<noteq> InteractionRequiredAuthError c" by simp
  from hyp acquireToken_propagates_other_errors [OF hyp other] show ?thesis by blast
qed

subsection \<open>Clearing the challenge\<close>

text \<open>
  Claim C5. When acquireToken succeeds and the stored challenge of the
  resource was included in the request (it was a string that is not empty),
  the store has no entry for the resource afterwards; when it succeeds through
  the interactive acquisition, the store has no entry for the resource
  afterwards whatever was stored before.
\<close>

theorem acquireToken_success_clears_challenge:
  "fst (acquireToken env scopes resource w) = Inr result \<Longrightarrow>
   (truthy (getStoredClaimsChallenge resource (sessionStorage w)) \<longrightarrow>
      getStoredClaimsChallenge resource (sessionStorage (snd (acquireToken env scopes resource w))) = None) \<and>
   (popup_calls (events_since w (snd (acquireToken env scopes resource w))) \<noteq> [] \<longrightarrow>
      getStoredClaimsChallenge resource (sessionStorage (snd (acquireToken env scopes resource w))) = None)"
proof -
  assume a: "fst (acquireToken env scopes resource w) = Inr result"
  obtain res w' where run: "acquireToken env scopes resource w = (res, w')"
    by (cases "acquireToken env scopes resource w")
  from acquireToken_runD [OF run] a show ?thesis
    unfolding run snd_conv fst_conv acquireToken_post_def prod.case Let_def
    by (auto simp: getStoredClaimsChallenge_def clearClaimsChallenge_def)
qed

theorem acquireToken_success_clears_challenge_witness:
  "fst (acquireToken (scripted silent_double (token ''p'') graph_double) [''User.Read''] ''graph''
         (page_with ''{x}'')) = Inr \<lparr>accessToken = ''t2'', res_account = Some ''alice''\<rparr> \<and>
   truthy (getStoredClaimsChallenge ''graph'' (sessionStorage (page_with ''{x}''))) \<and>
   getStoredClaimsChallenge ''graph'' (sessionStorage (snd (acquireToken
         (scripted silent_double (token ''p'') graph_double) [''User.Read''] ''graph''
         (page_with ''{x}'')))) = None \<and>
   fst (acquireToken (scripted (fails (InteractionRequiredAuthError None)) (token ''p'') graph_double)
         [''User.Read''] ''graph'' (page_with [])) = Inr \<lparr>accessToken = ''p'', res_account = Some ''alice''\<rparr> \<and>
   popup_calls (events_since (page_with []) (snd (acquireToken
         (scripted (fails (InteractionRequiredAuthError None)) (token ''p'') graph_double)
         [''User.Read''] ''graph'' (page_with [])))) \<noteq> [] \<and>
   getStoredClaimsChallenge ''graph'' (sessionStorage (page_with [])) = Some [] \<and>
   getStoredClaimsChallenge ''graph'' (sessionStorage (snd (acquireToken
         (scripted (fails (InteractionRequiredAuthError None)) (token ''p'') graph_double)
         [''User.Read''] ''graph'' (page_with [])))) = None"
proof -
  have r1: "fst (acquireToken (scripted silent_double (token ''p'') graph_double) [''User.Read''] ''graph''
         (page_with ''{x}'')) = Inr \<lparr>accessToken = ''t2'', res_account = Some ''alice''\<rparr>"
    by (simp add: model_eval)
  have r2: "fst (acquireToken (scripted (fails (InteractionRequiredAuthError None)) (token ''p'') graph_double)
         [''User.Read''] ''graph'' (page_with [])) = Inr \<lparr>accessToken = ''p'', res_account = Some ''alice''\<rparr>"
    by (simp add: model_eval)
  have t: "truthy (getStoredClaimsChallenge ''graph'' (sessionStorage (page_with ''{x}'')))"
    by (simp add: model_eval)
  have p: "popup_calls (events_since (page_with []) (snd (acquireToken
         (scripted (fails (InteractionRequiredAuthError None)) (token ''p'') graph_double)
         [''User.Read''] ''graph'' (page_with [])))) \<noteq> []"
    by (simp add: model_eval)
  have e: "getStoredClaimsChallenge ''graph'' (sessionStorage (page_with [])) = Some []"
    by (simp add: model_eval)
  from acquireToken_success_clears_challenge [OF r1] acquireToken_success_clears_challenge [OF r2]
    r1 r2 t p e
  show ?thesis by blast
qed

section \<open>Properties of getMsalInstance\<close>

text \<open>
  Calls that do not overlap share one client: once a call has returned a
  client, the next call returns the same client and constructs nothing.
\<close>

lemma getMsalInstance_sequential:
  assumes "getMsalInstance env w = (Inr pca, w1)"
  shows "getMsalInstance env w1 = (Inr pca, w1)"
  using assms
  by (auto simp: getMsalInstance_def getMsalInstance_enter_def getMsalInstance_resume_def
        Let_def split: option.splits sum.splits)

text \<open>
  Calls that overlap do not: whenever the module variable is null when the
  first call is entered, the schedule with the second call entered before the
  first is resumed calls the constructor twice.
\<close>

lemma constructions_append: "constructions (xs @ ys) = constructions xs + constructions ys"
  by (induction xs rule: constructions.induct) simp_all

lemma getMsalInstance_overlap_constructions:
  assumes "msalInstance w = None"
  shows "constructions (trace (snd (overlapping_getMsalInstance env w))) =
           constructions (trace w) + 2"
  using assms
  by (simp add: overlapping_getMsalInstance_def getMsalInstance_enter_def
        getMsalInstance_resume_def record_call_def Let_def constructions_append
      split: sum.splits)

text \<open>
  Claim C3 says that two calls of getMsalInstance, the second entered before
  the construction started by the first has ended, construct one client and
  both return it. The code tests the module variable, which is assigned only
  after the \<^verbatim>\<open>await\<close>, so on a freshly loaded page both calls find it null:
  the constructor is called twice and the two calls return different clients.
\<close>

theorem getMsalInstance_overlap_constructs_twice:
  "fst (overlapping_getMsalInstance (scripted silent_double (token ''p'') graph_double) fresh_page)
     = (Inr 0, Inr 1) \<and>
   constructions (trace (snd (overlapping_getMsalInstance
     (scripted silent_double (token ''p'') graph_double) fresh_page))) = 2"
  by (simp add: overlapping_getMsalInstance_def model_eval)

section \<open>Properties of callGraphWithClaimsRetry\<close>

lemma handleClaimsChallengeFromResponse_truthy:
  assumes "handleClaimsChallengeFromResponse resp resource st = (claims, st')" and "truthy claims"
  shows "\<exists>hdr c. status resp = 401 \<and> header_WWW_Authenticate resp = Some hdr \<and> hdr \<noteq> [] \<and>
           parseClaimsChallengeFromHeader hdr = Some c \<and> c \<noteq> [] \<and> claims = Some c \<and>
           st' = storeClaimsChallenge resource c st"
  using assms
  by (auto simp: handleClaimsChallengeFromResponse_def truthy_def split: if_splits option.splits)

lemma callGraph_fetch_bound:
  "length (fetch_calls (events_since w (snd (callGraphWithClaimsRetry env endpoint scopes w)))) \<le> 2"
proof -
  let ?url = "GRAPH_BASE @ endpoint"
  obtain r1 w1 where a1: "acquireToken env scopes RESOURCE w = (r1, w1)"
    by (cases "acquireToken env scopes RESOURCE w")
  from acquireToken_trace [OF a1] obtain es1 where es1: "trace w1 = trace w @ es1" "fetch_calls es1 = []"
    by blast
  show ?thesis
  proof (cases r1)
    case (Inl e)
    with a1 es1 show ?thesis
      by (simp add: callGraphWithClaimsRetry_def events_since_def)
  next
    case t1: (Inr t1)
    obtain f1 w2 where df1: "do_fetch env ?url (authorization t1) w1 = (f1, w2)"
      by (cases "do_fetch env ?url (authorization t1) w1")
    then have tr2: "trace w2 = trace w @ es1 @ [(Fetch ?url (authorization t1) f1, sessionStorage w1)]"
      by (auto simp: do_fetch_def record_call_def es1 Let_def)
    have one: "length (fetch_calls (events_since w w2)) \<le> 2"
      by (simp add: events_since_def tr2 fetch_calls_append es1)
    show ?thesis
    proof (cases f1)
      case (Inl e)
      with a1 t1 df1 one show ?thesis
        by (simp add: callGraphWithClaimsRetry_def)
    next
      case f1: (Inr resp)
      obtain claims st where h: "handleClaimsChallengeFromResponse resp RESOURCE (sessionStorage w2) = (claims, st)"
        by (cases "handleClaimsChallengeFromResponse resp RESOURCE (sessionStorage w2)")
      define w3 where "w3 = w2\<lparr>sessionStorage := st\<rparr>"
      have tr3: "trace w3 = trace w2" by (simp add: w3_def)
      obtain r2 w4 where a2: "acquireToken env scopes RESOURCE w3 = (r2, w4)"
        by (cases "acquireToken env scopes RESOURCE w3")
      from acquireToken_trace [OF a2] obtain es2 where es2: "trace w4 = trace w3 @ es2" "fetch_calls es2 = []"
        by blast
      have one3: "length (fetch_calls (events_since w w3)) \<le> 2"
        by (simp add: events_since_def tr3 tr2 fetch_calls_append es1)
      have one4: "length (fetch_calls (events_since w w4)) \<le> 2"
        by (simp add: events_since_def es2 tr3 tr2 fetch_calls_append es1)
      have two: "length (fetch_calls (events_since w (snd (do_fetch env ?url auth w4)))) \<le> 2" for auth
        by (simp add: do_fetch_def record_call_def events_since_def es2 tr3 tr2
              fetch_calls_append es1 Let_def)
      have "snd (callGraphWithClaimsRetry env endpoint scopes w) = w2 \<or>
            snd (callGraphWithClaimsRetry env endpoint scopes w) = w3 \<or>
            snd (callGraphWithClaimsRetry env endpoint scopes w) = w4 \<or>
            (\<exists>auth. snd (callGraphWithClaimsRetry env endpoint scopes w) = snd (do_fetch env ?url auth w4))"
      proof (cases r2)
        case (Inl e)
        then show ?thesis
          by (simp add: callGraphWithClaimsRetry_def a1 t1 df1 f1 h w3_def [symmetric] a2 Let_def)
      next
        case t2: (Inr t2)
        obtain f2 w5 where df2: "do_fetch env ?url (authorization t2) w4 = (f2, w5)"
          by (cases "do_fetch env ?url (authorization t2) w4")
        then have "snd (do_fetch env ?url (authorization t2) w4) = w5" by simp
        then have "\<exists>auth. w5 = snd (do_fetch env ?url auth w4)" by metis
        then show ?thesis
          by (cases f2)
             (simp_all add: callGraphWithClaimsRetry_def a1 t1 df1 f1 h w3_def [symmetric] a2 t2 df2 Let_def)
      qed
      with one one3 one4 two show ?thesis by auto
    qed
  qed
qed

lemma parse_challenge_header: "parseClaimsChallengeFromHeader challenge_header = Some challenge"
  by (simp add: parseClaimsChallengeFromHeader_def claimsRegex_exec.simps codec_eval
        challenge_header_def challenge_def)

lemma challenge_header_nonempty: "challenge_header \<noteq> []"
  by (simp add: challenge_header_def)

lemma challenge_nonempty: "challenge \<noteq> []"
  by (simp add: challenge_def)

lemma decimal_401: "decimal 401 = ''401''"
  by (simp add: decimal.simps)

text \<open>
  Claim C2, as the specification states it, says that a first response with
  status 401 and a claims challenge always leads to exactly two calls of
  \<^verbatim>\<open>fetch\<close>. It does not when the token cannot be acquired again: here the
  silent acquisition with the challenge asks for interaction, the user cancels
  the interactive acquisition, that error leaves the function, and
  \<^verbatim>\<open>fetch\<close> was called once.
\<close>

theorem callGraphWithClaimsRetry_one_fetch_counterexample:
  "map fst (fetch_calls (trace (snd (callGraphWithClaimsRetry
      (scripted step_up_double (fails (OtherError ''user_cancelled'')) graph_double)
      ''/me'' [''User.Read''] fresh_page))))
     = [(''https://graph.microsoft.com/v1.0/me'', ''Bearer t1'')] \<and>
   map snd (fetch_calls (trace (snd (callGraphWithClaimsRetry
      (scripted step_up_double (fails (OtherError ''user_cancelled'')) graph_double)
      ''/me'' [''User.Read''] fresh_page))))
     = [Inr unauthorized] \<and>
   status unauthorized = 401 \<and>
   fst (handleClaimsChallengeFromResponse unauthorized ''graph'' Map.empty) = Some challenge \<and>
   challenge \<noteq> [] \<and>
   fst (callGraphWithClaimsRetry
      (scripted step_up_double (fails (OtherError ''user_cancelled'')) graph_double)
      ''/me'' [''User.Read''] fresh_page) = Inl (OtherError ''user_cancelled'')"
  by (simp add: callGraphWithClaimsRetry_def model_eval parse_challenge_header
        challenge_header_nonempty challenge_nonempty)

text \<open>
  Claim C2, amended. Let the first token be acquired, the first response have
  status 401 and its challenge header yield a claims value \<open>c\<close> that is not
  empty, and let \<open>w3\<close> be the state after that response, with \<open>c\<close> stored. Then
  the token is acquired again in \<open>w3\<close>, where the store holds \<open>c\<close>. If that
  acquisition fails, its error leaves the function and \<^verbatim>\<open>fetch\<close> was called
  once. If it succeeds, \<^verbatim>\<open>fetch\<close> is called exactly twice, the second time
  with the new token, and if the second response is not a success the function
  fails with the error whose message holds the status and the body text. In
  both cases \<^verbatim>\<open>fetch\<close> is called at most twice.
\<close>

theorem callGraphWithClaimsRetry_single_retry:
  assumes a1: "acquireToken env scopes RESOURCE w = (Inr t1, w1)"
    and f1: "fetch env (trace w1) (GRAPH_BASE @ endpoint) (authorization t1) = Inr resp1"
    and st: "status resp1 = 401"
    and hd: "header_WWW_Authenticate resp1 = Some hdr" "hdr \<noteq> []"
    and cl: "parseClaimsChallengeFromHeader hdr = Some c" "c \<noteq> []"
    and w3: "w3 = (record_call (Fetch (GRAPH_BASE @ endpoint) (authorization t1) (Inr resp1)) w1)
           \<lparr>sessionStorage := storeClaimsChallenge RESOURCE c (sessionStorage w1)\<rparr>"
  shows "length (fetch_calls (events_since w (snd (callGraphWithClaimsRetry env endpoint scopes w)))) \<le> 2 \<and>
    getStoredClaimsChallenge RESOURCE (sessionStorage w3) = Some c \<and>
    (\<forall>e w4. acquireToken env scopes RESOURCE w3 = (Inl e, w4) \<longrightarrow>
       fst (callGraphWithClaimsRetry env endpoint scopes w) = Inl e \<and>
       map fst (fetch_calls (events_since w (snd (callGraphWithClaimsRetry env endpoint scopes w))))
         = [(GRAPH_BASE @ endpoint, authorization t1)]) \<and>
    (\<forall>t2 w4. acquireToken env scopes RESOURCE w3 = (Inr t2, w4) \<longrightarrow>
       map fst (fetch_calls (events_since w (snd (callGraphWithClaimsRetry env endpoint scopes w))))
         = [(GRAPH_BASE @ endpoint, authorization t1), (GRAPH_BASE @ endpoint, authorization t2)] \<and>
       (\<forall>resp2. fetch env (trace w4) (GRAPH_BASE @ endpoint) (authorization t2) = Inr resp2 \<and>
                 \<not> ok resp2 \<longrightarrow>
          fst (callGraphWithClaimsRetry env endpoint scopes w) =
            Inl (Error (''Graph API error '' @ decimal (status resp2) @ '': '' @ statusText resp2
                        @ [CHR 0x0A] @ bodyText resp2))))"
proof -
  let ?url = "GRAPH_BASE @ endpoint"
  from acquireToken_trace [OF a1] obtain es1 where es1: "trace w1 = trace w @ es1" "fetch_calls es1 = []"
    by blast
  have df1: "do_fetch env ?url (authorization t1) w1 =
      (Inr resp1, record_call (Fetch ?url (authorization t1) (Inr resp1)) w1)"
    by (simp add: do_fetch_def f1 Let_def)
  have h: "handleClaimsChallengeFromResponse resp1 RESOURCE
      (sessionStorage (record_call (Fetch ?url (authorization t1) (Inr resp1)) w1)) =
      (Some c, storeClaimsChallenge RESOURCE c (sessionStorage w1))"
    by (simp add: handleClaimsChallengeFromResponse_def st hd cl record_call_def)
  have bound: "length (fetch_calls (events_since w (snd (callGraphWithClaimsRetry env endpoint scopes w)))) \<le> 2"
    by (rule callGraph_fetch_bound)
  have stored: "getStoredClaimsChallenge RESOURCE (sessionStorage w3) = Some c"
    by (simp add: w3 getStoredClaimsChallenge_def storeClaimsChallenge_def)
  have failed: "fst (callGraphWithClaimsRetry env endpoint scopes w) = Inl e \<and>
       map fst (fetch_calls (events_since w (snd (callGraphWithClaimsRetry env endpoint scopes w))))
         = [(?url, authorization t1)]"
    if a2: "acquireToken env scopes RESOURCE w3 = (Inl e, w4)" for e w4
  proof -
    from acquireToken_trace [OF a2] obtain es2 where es2: "trace w4 = trace w3 @ es2" "fetch_calls es2 = []"
      by blast
    have run: "callGraphWithClaimsRetry env endpoint scopes w = (Inl e, w4)"
      by (simp add: callGraphWithClaimsRetry_def a1 df1 st h w3 [symmetric] a2 truthy_def cl)
    show ?thesis
      by (simp add: run events_since_def es2 w3 record_call_def es1 fetch_calls_append)
  qed
  have retried: "map fst (fetch_calls (events_since w (snd (callGraphWithClaimsRetry env endpoint scopes w))))
         = [(?url, authorization t1), (?url, authorization t2)] \<and>
       (\<forall>resp2. fetch env (trace w4) ?url (authorization t2) = Inr resp2 \<and> \<not> ok resp2 \<longrightarrow>
          fst (callGraphWithClaimsRetry env endpoint scopes w) =
            Inl (Error (''Graph API error '' @ decimal (status resp2) @ '': '' @ statusText resp2
                        @ [CHR 0x0A] @ bodyText resp2)))"
    if a2: "acquireToken env scopes RESOURCE w3 = (Inr t2, w4)" for t2 w4
  proof -
    from acquireToken_trace [OF a2] obtain es2 where es2: "trace w4 = trace w3 @ es2" "fetch_calls es2 = []"
      by blast
    obtain f2 where f2: "fetch env (trace w4) ?url (authorization t2) = f2" by simp
    have df2: "do_fetch env ?url (authorization t2) w4 =
        (f2, record_call (Fetch ?url (authorization t2) f2) w4)"
      by (simp add: do_fetch_def f2 Let_def)
    have run: "callGraphWithClaimsRetry env endpoint scopes w =
        (case f2 of Inl e \<Rightarrow> Inl e | Inr resp2 \<Rightarrow> graph_result env resp2,
         record_call (Fetch ?url (authorization t2) f2) w4)"
      by (cases f2)
         (simp_all add: callGraphWithClaimsRetry_def a1 df1 st h w3 [symmetric] a2 truthy_def cl df2)
    have calls: "map fst (fetch_calls (events_since w (snd (callGraphWithClaimsRetry env endpoint scopes w))))
         = [(?url, authorization t1), (?url, authorization t2)]"
      by (simp add: run events_since_def es2 w3 record_call_def es1 fetch_calls_append)
    have fails: "fst (callGraphWithClaimsRetry env endpoint scopes w) =
            Inl (Error (''Graph API error '' @ decimal (status resp2) @ '': '' @ statusText resp2
                        @ [CHR 0x0A] @ bodyText resp2))"
      if "fetch env (trace w4) ?url (authorization t2) = Inr resp2 \<and> \<not> ok resp2" for resp2
    proof -
      from that f2 have "f2 = Inr resp2" "\<not> ok resp2" by simp_all
      then show ?thesis by (simp add: run graph_result_def)
    qed
    from calls fails show ?thesis by (intro conjI allI impI)
  qed
  have F: "\<forall>e w4. acquireToken env scopes RESOURCE w3 = (Inl e, w4) \<longrightarrow>
       fst (callGraphWithClaimsRetry env endpoint scopes w) = Inl e \<and>
       map fst (fetch_calls (events_since w (snd (callGraphWithClaimsRetry env endpoint scopes w))))
         = [(?url, authorization t1)]"
    by (intro allI impI) (rule failed)
  have R: "\<forall>t2 w4. acquireToken env scopes RESOURCE w3 = (Inr t2, w4) \<longrightarrow>
       map fst (fetch_calls (events_since w (snd (callGraphWithClaimsRetry env endpoint scopes w))))
         = [(?url, authorization t1), (?url, authorization t2)] \<and>
       (\<forall>resp2. fetch env (trace w4) ?url (authorization t2) = Inr resp2 \<and> \<not> ok resp2 \<longrightarrow>
          fst (callGraphWithClaimsRetry env endpoint scopes w) =
            Inl (Error (''Graph API error '' @ decimal (status resp2) @ '': '' @ statusText resp2
                        @ [CHR 0x0A] @ bodyText resp2)))"
    by (intro allI impI) (rule retried)
  from bound stored F R show ?thesis
    by (intro conjI)
qed

theorem callGraphWithClaimsRetry_single_retry_witness:
  "map fst (fetch_calls (events_since fresh_page (snd (callGraphWithClaimsRetry
      (scripted silent_double (token ''p'') graph_denies) ''/me'' [''User.Read''] fresh_page))))
     = [(GRAPH_BASE @ ''/me'', ''Bearer t1''), (GRAPH_BASE @ ''/me'', ''Bearer t2'')] \<and>
   fst (callGraphWithClaimsRetry
      (scripted silent_double (token ''p'') graph_denies) ''/me'' [''User.Read''] fresh_page)
     = Inl (Error (''Graph API error 401: Unauthorized'' @ [CHR 0x0A] @ ''denied''))"
proof -
  let ?E = "scripted silent_double (token ''p'') graph_denies :: string environment"
  let ?T1 = "\<lparr>accessToken = ''t1'', res_account = Some ''alice''\<rparr>"
  let ?T2 = "\<lparr>accessToken = ''t2'', res_account = Some ''alice''\<rparr>"
  let ?W1 = "\<lparr>sessionStorage = Map.empty, msalInstance = Some 0, activeAccount = Some ''alice'',
       trace = [(CreateNestablePublicClientApplication (Inr ()), Map.empty),
                (AcquireTokenSilent (silent_request [''User.Read''] None None) (Inr ?T1), Map.empty)]\<rparr>"
  let ?W3 = "(record_call (Fetch (GRAPH_BASE @ ''/me'') (authorization ?T1) (Inr unauthorized)) ?W1)
           \<lparr>sessionStorage := storeClaimsChallenge RESOURCE challenge (sessionStorage ?W1)\<rparr>"
  have a1: "acquireToken ?E [''User.Read''] RESOURCE fresh_page = (Inr ?T1, ?W1)"
    by (simp add: model_eval)
  have f1: "fetch ?E (trace ?W1) (GRAPH_BASE @ ''/me'') (authorization ?T1) = Inr unauthorized"
    by (simp add: scripted_def graph_denies_def)
  have st: "status unauthorized = 401"
    and hd: "header_WWW_Authenticate unauthorized = Some challenge_header"
    by (simp_all add: unauthorized_def)
  note single = callGraphWithClaimsRetry_single_retry [OF a1 f1 st hd challenge_header_nonempty
      parse_challenge_header challenge_nonempty refl]
  have "truthy (Some challenge)" by (simp add: truthy_def challenge_nonempty)
  then have fst2: "fst (acquireToken ?E [''User.Read''] RESOURCE ?W3) = Inr ?T2"
    by (simp add: acquireToken_def getMsalInstance_def getMsalInstance_enter_def
        getMsalInstance_resume_def getActiveAccount_def setActiveAccount_def record_call_def
        buildGraphRequest_def getStoredClaimsChallenge_def storeClaimsChallenge_def
        clearClaimsChallenge_def scripted_def token_def silent_double_def Let_def)
  have a2: "acquireToken ?E [''User.Read''] RESOURCE ?W3 =
      (Inr ?T2, snd (acquireToken ?E [''User.Read''] RESOURCE ?W3))"
    using fst2 by (simp add: prod_eq_iff)
  note retried = single [THEN conjunct2, THEN conjunct2, THEN conjunct2, rule_format, OF a2]
  have f2: "fetch ?E (trace (snd (acquireToken ?E [''User.Read''] RESOURCE ?W3)))
      (GRAPH_BASE @ ''/me'') (authorization ?T2) = Inr unauthorized \<and> \<not> ok unauthorized"
    by (simp add: scripted_def graph_denies_def ok_def unauthorized_def)
  from retried [THEN conjunct1] retried [THEN conjunct2, rule_format, OF f2]
  show ?thesis
    by (simp add: authorization_def unauthorized_def decimal_401)
qed

end
